theory Spec2Isabelle
  imports Complex_Main "HOL-Library.Log_Nat" "HOL-Library.Word"
begin

section \<open>Go values used by the usage plugin\<close>

subsection \<open>float64\<close>

text \<open>
  A float64 is modelled by its value: not-a-number, the two infinities, or a finite real.
  The two zeros of IEEE 754 are identified: Go's \<open>==\<close>, \<open><\<close> and \<open>>\<close> do not tell
  them apart, and the plugin never divides by a computed number, the only operation
  whose result depends on the sign of a zero.
\<close>

datatype float64 = NaN | NInf | PInf | Fin real

text \<open>Go's \<open><\<close>, \<open>>\<close>, \<open>==\<close> and \<open>>=\<close> on float64: every comparison with NaN is false.\<close>

fun flt :: "float64 \<Rightarrow> float64 \<Rightarrow> bool" where
  "flt NaN b = False"
| "flt a NaN = False"
| "flt NInf NInf = False"
| "flt NInf b = True"
| "flt a NInf = False"
| "flt PInf b = False"
| "flt (Fin x) PInf = True"
| "flt (Fin x) (Fin y) = (x < y)"

definition fgt :: "float64 \<Rightarrow> float64 \<Rightarrow> bool" where
  "fgt a b = flt b a"

definition feq :: "float64 \<Rightarrow> float64 \<Rightarrow> bool" where
  "feq a b = (a \<noteq> NaN \<and> a = b)"

definition fge :: "float64 \<Rightarrow> float64 \<Rightarrow> bool" where
  "fge a b = (fgt a b \<or> feq a b)"

definition fle :: "float64 \<Rightarrow> float64 \<Rightarrow> bool" where
  "fle a b = (flt a b \<or> feq a b)"

definition is_finite :: "float64 \<Rightarrow> bool" where
  "is_finite a = (case a of Fin x \<Rightarrow> True | _ \<Rightarrow> False)"

text \<open>
  Rounding to binary64, to nearest with ties to even. Finite binary64 numbers are the
  integer multiples \<open>m * 2 ^ s / 2 ^ 1074\<close> with \<open>\<bar>m\<bar> < 2 ^ 53\<close> that lie strictly
  between \<open>- 2 ^ 1024\<close> and \<open>2 ^ 1024\<close>; \<open>fexp x\<close> is the \<open>s\<close> of the binade of \<open>x\<close>
  (0 for subnormal numbers, \<open>etop = emin + emax - 53\<close> for the largest finite ones).
\<close>

definition emin :: nat where
  "emin = 1074"

definition emax :: nat where
  "emax = 1024"

definition etop :: nat where
  "etop = 2045"

definition rne :: "real \<Rightarrow> int" where
  "rne x = (let f = \<lfloor>x\<rfloor>; d = x - of_int f in
     if d < 1 / 2 then f else if 1 / 2 < d then f + 1 else if even f then f else f + 1)"

definition fexp :: "real \<Rightarrow> nat" where
  "fexp x = nat (bitlen \<lfloor>\<bar>x\<bar> * 2 ^ emin\<rfloor> - 53)"

definition classify :: "real \<Rightarrow> float64" where
  "classify r = (if 2 ^ emax \<le> r then PInf else if r \<le> - (2 ^ emax) then NInf else Fin r)"

definition mant :: "real \<Rightarrow> int" where
  "mant x = rne (x * 2 ^ emin / 2 ^ fexp x)"

definition rounded :: "real \<Rightarrow> real" where
  "rounded x = of_int (mant x) * 2 ^ fexp x / 2 ^ emin"

definition round64 :: "real \<Rightarrow> float64" where
  "round64 x = classify (rounded x)"

text \<open>
  The values a float64 variable holds: a finite one is a binary64 number, that is,
  rounding leaves it as it is.
\<close>

definition is_float64 :: "float64 \<Rightarrow> bool" where
  "is_float64 a = (case a of Fin x \<Rightarrow> round64 x = Fin x | _ \<Rightarrow> True)"

text \<open>Go's \<open>-\<close>, \<open>/\<close> and \<open>*\<close> on float64 (IEEE 754, each result rounded once).\<close>

fun fsub :: "float64 \<Rightarrow> float64 \<Rightarrow> float64" where
  "fsub NaN b = NaN"
| "fsub a NaN = NaN"
| "fsub PInf PInf = NaN"
| "fsub NInf NInf = NaN"
| "fsub PInf b = PInf"
| "fsub NInf b = NInf"
| "fsub (Fin x) PInf = NInf"
| "fsub (Fin x) NInf = PInf"
| "fsub (Fin x) (Fin y) = round64 (x - y)"

text \<open>
  Division, for a divisor that is not zero (the plugin divides by the constant 100 only);
  a zero divisor is read as the positive zero.
\<close>

fun fdiv :: "float64 \<Rightarrow> float64 \<Rightarrow> float64" where
  "fdiv NaN b = NaN"
| "fdiv a NaN = NaN"
| "fdiv PInf (Fin y) = (if 0 \<le> y then PInf else NInf)"
| "fdiv NInf (Fin y) = (if 0 \<le> y then NInf else PInf)"
| "fdiv PInf b = NaN"
| "fdiv NInf b = NaN"
| "fdiv (Fin x) PInf = Fin 0"
| "fdiv (Fin x) NInf = Fin 0"
| "fdiv (Fin x) (Fin y) =
     (if y = 0 then (if x = 0 then NaN else if 0 < x then PInf else NInf)
      else round64 (x / y))"

fun fmul :: "float64 \<Rightarrow> float64 \<Rightarrow> float64" where
  "fmul NaN b = NaN"
| "fmul a NaN = NaN"
| "fmul PInf PInf = PInf"
| "fmul PInf NInf = NInf"
| "fmul NInf PInf = NInf"
| "fmul NInf NInf = PInf"
| "fmul PInf (Fin y) = (if y = 0 then NaN else if 0 < y then PInf else NInf)"
| "fmul NInf (Fin y) = (if y = 0 then NaN else if 0 < y then NInf else PInf)"
| "fmul (Fin x) PInf = (if x = 0 then NaN else if 0 < x then PInf else NInf)"
| "fmul (Fin x) NInf = (if x = 0 then NaN else if 0 < x then NInf else PInf)"
| "fmul (Fin x) (Fin y) = round64 (x * y)"

subsection \<open>Integers\<close>

text \<open>
  Go's \<open>int\<close> on the 64-bit platforms the scheduler is built for, and \<open>int64\<close>: 64-bit
  words read as two's complement; \<open>*\<close> wraps around. The conversion \<open>float64(n)\<close>
  rounds the integer to the nearest float64.
\<close>

type_synonym go_int = "64 word"

definition float64_of_int :: "go_int \<Rightarrow> float64" where
  "float64_of_int n = round64 (real_of_int (sint n))"

subsection \<open>Dynamically typed values\<close>

text \<open>
  A value of type \<open>interface{}\<close> with the dynamic types a decoded plugin configuration
  holds. \<open>GMap\<close> is a \<open>map[interface{}]interface{}\<close>, listed in the order in which
  \<open>range\<close> visits its entries.
\<close>

datatype gval =
    GNil
  | GBool bool
  | GInt go_int
  | GFloat float64
  | GString string
  | GSlice "gval list"
  | GMap "(gval \<times> gval) list"

text \<open>\<open>framework.Arguments\<close> is a \<open>map[string]interface{}\<close>.\<close>

type_synonym Arguments = "string \<rightharpoonup> gval"

section \<open>The plugin\<close>

definition PluginName :: string where
  "PluginName = ''usage''"

definition thresholdSection :: string where
  "thresholdSection = ''thresholds''"

definition AVG :: string where
  "AVG = ''average''"

record usagePlugin =
  pluginArguments :: Arguments
  weight :: go_int
  usageType :: string
  cpuThresholds :: float64
  memThresholds :: float64
  SamplePeriods :: string

text \<open>
  Modelled from the spec: \<open>framework.Arguments.GetInt\<close> is declared outside the plugin's
  file. The weight is "read as an integer-valued argument keyed usage.weight; on absence
  or wrong type, keep default (no error raised)".
\<close>

definition GetInt :: "Arguments \<Rightarrow> go_int \<Rightarrow> string \<Rightarrow> go_int" where
  "GetInt args cur key = (case args key of Some (GInt n) \<Rightarrow> n | _ \<Rightarrow> cur)"

text \<open>\<open>New\<close>: the defaults, then the weight, the type and the period.\<close>

definition New :: "Arguments \<Rightarrow> usagePlugin" where
  "New args =
     (let plugin = \<lparr>pluginArguments = args, weight = 1, usageType = AVG,
                     cpuThresholds = Fin 80, memThresholds = Fin 80,
                     SamplePeriods = ''10m''\<rparr>;
          plugin = plugin\<lparr>weight := GetInt args (weight plugin) ''usage.weight''\<rparr>;
          plugin = (case args ''type'' of
                      Some (GString average) \<Rightarrow> plugin\<lparr>usageType := average\<rparr>
                    | _ \<Rightarrow> plugin);
          plugin = (case args ''period'' of
                      Some (GString samplePeriods) \<Rightarrow> plugin\<lparr>SamplePeriods := samplePeriods\<rparr>
                    | _ \<Rightarrow> plugin)
      in plugin)"

text \<open>
  The body of the loop over the thresholds section. A failed type assertion
  \<open>k.(string)\<close> or \<open>v.(int)\<close> yields the zero value of the type, and the loop goes on
  with it.
\<close>

definition assertString :: "gval \<Rightarrow> string" where
  "assertString k = (case k of GString s \<Rightarrow> s | _ \<Rightarrow> '''')"

definition assertInt :: "gval \<Rightarrow> go_int" where
  "assertInt v = (case v of GInt n \<Rightarrow> n | _ \<Rightarrow> 0)"

definition thresholdStep :: "usagePlugin \<Rightarrow> gval \<times> gval \<Rightarrow> usagePlugin" where
  "thresholdStep up kv =
     (let key = assertString (fst kv); val = assertInt (snd kv) in
      if key = ''cpu'' then up\<lparr>cpuThresholds := float64_of_int val\<rparr>
      else if key = ''mem'' then up\<lparr>memThresholds := float64_of_int val\<rparr>
      else up)"

text \<open>
  The entries the loop ranges over: those of the section when it is a
  \<open>map[interface{}]interface{}\<close>, none otherwise (the failed assertion leaves a nil map).
\<close>

definition thresholdEntries :: "gval \<Rightarrow> (gval \<times> gval) list" where
  "thresholdEntries argsValue = (case argsValue of GMap kvs \<Rightarrow> kvs | _ \<Rightarrow> [])"

definition resolveThresholds :: "usagePlugin \<Rightarrow> usagePlugin" where
  "resolveThresholds up =
     (case pluginArguments up thresholdSection of
        None \<Rightarrow> up
      | Some argsValue \<Rightarrow> foldl thresholdStep up (thresholdEntries argsValue))"

subsection \<open>Nodes and tasks\<close>

text \<open>
  Modelled from the spec: \<open>api.NodeInfo\<close>, \<open>api.NodeUsage\<close> and \<open>api.TaskInfo\<close> are
  declared outside the plugin's file. A node carries its name and a utilization snapshot
  with "two mappings from samplePeriod-label to average utilization percentage (one for
  CPU, one for memory)"; a task carries its namespace and name.
\<close>

record NodeUsage =
  CPUUsageAvg :: "string \<rightharpoonup> float64"
  MEMUsageAvg :: "string \<rightharpoonup> float64"

record NodeInfo =
  Name :: string
  ResourceUsage :: NodeUsage

record TaskInfo =
  Namespace :: string
  TaskName :: string

text \<open>Indexing a Go map at a key it does not hold yields the zero value, here 0.\<close>

definition usageAt :: "(string \<rightharpoonup> float64) \<Rightarrow> string \<Rightarrow> float64" where
  "usageAt m k = (case m k of None \<Rightarrow> Fin 0 | Some v \<Rightarrow> v)"

subsection \<open>The two callbacks\<close>

text \<open>
  The error a predicate returns, with the data its message is formatted from: the node's
  name, the measured utilization and the threshold.
\<close>

datatype error =
    CpuUsageExceeds string float64 float64
  | MemUsageExceeds string float64 float64

definition predicateFn :: "usagePlugin \<Rightarrow> TaskInfo \<Rightarrow> NodeInfo \<Rightarrow> error option" where
  "predicateFn up task node =
     (if SamplePeriods up \<noteq> '''' then
        (if fgt (usageAt (CPUUsageAvg (ResourceUsage node)) (SamplePeriods up)) (cpuThresholds up)
         then Some (CpuUsageExceeds (Name node)
                      (usageAt (CPUUsageAvg (ResourceUsage node)) (SamplePeriods up))
                      (cpuThresholds up))
         else if fgt (usageAt (MEMUsageAvg (ResourceUsage node)) (SamplePeriods up)) (memThresholds up)
         then Some (MemUsageExceeds (Name node)
                      (usageAt (MEMUsageAvg (ResourceUsage node)) (SamplePeriods up))
                      (memThresholds up))
         else None)
      else None)"

text \<open>
  \<open>k8sFramework.MaxNodeScore\<close>, an int64 constant of the scheduling framework, is not
  declared in the plugin's file: it is the first argument of \<open>nodeOrderFn\<close>.
\<close>

definition nodeOrderFn ::
  "64 word \<Rightarrow> usagePlugin \<Rightarrow> TaskInfo \<Rightarrow> NodeInfo \<Rightarrow> float64 \<times> error option" where
  "nodeOrderFn MaxNodeScore up task node =
     (if SamplePeriods up = '''' then (Fin 0, None)
      else
        (case CPUUsageAvg (ResourceUsage node) (SamplePeriods up) of
           None \<Rightarrow> (Fin 0, None)
         | Some cpuUsage \<Rightarrow>
             (let score = fdiv (fsub (Fin 100) cpuUsage) (Fin 100);
                  score = fmul score (float64_of_int (MaxNodeScore * weight up))
              in (score, None))))"

subsection \<open>Opening a session\<close>

text \<open>
  Modelled from the spec: \<open>framework.Session\<close>, \<open>cache.SchedulerCache\<close> and the variable
  \<open>source.Period\<close> are declared outside the plugin's file. The session exposes "a node
  collection with per-node utilization snapshots, a mechanism to register predicate and
  scoring callbacks, and a handle to a cache object exposing a metrics-refresh operation
  and (when the concrete type matches) direct per-node utilization state";
  \<open>source.Period\<close> is the "shared sampling-period indicator" of the process.
  \<open>SchedulerCache\<close> maps a node's name to a pointer to its \<open>NodeInfo\<close>: a name the map
  does not hold yields nil, and reading a field through it panics.
\<close>

datatype Cache = SchedulerCache "string \<rightharpoonup> NodeInfo" | OtherCache

record Globals =
  Period :: string
  cache :: Cache

record Session =
  NodeList :: "NodeInfo list"
  predicateFns :: "string \<rightharpoonup> (TaskInfo \<Rightarrow> NodeInfo \<Rightarrow> error option)"
  nodeOrderFns :: "string \<rightharpoonup> (TaskInfo \<Rightarrow> NodeInfo \<Rightarrow> float64 \<times> error option)"

datatype panic = NilPointerDereference

text \<open>What opening a session does to the world outside the plugin, in order.\<close>

datatype event = SetPeriod string | MetricsRefresh | CopyUsage string

text \<open>
  The loop over \<open>ssn.NodeList\<close>: each node's \<open>ResourceUsage\<close> is overwritten with the one
  the cache holds under the node's name.
\<close>

fun copyUsage ::
  "(string \<rightharpoonup> NodeInfo) \<Rightarrow> NodeInfo list \<Rightarrow> event list \<times> (panic + NodeInfo list)" where
  "copyUsage nodes [] = ([], Inr [])"
| "copyUsage nodes (node # rest) =
     (case nodes (Name node) of
        None \<Rightarrow> ([], Inl NilPointerDereference)
      | Some cached \<Rightarrow>
          (case copyUsage nodes rest of
             (evs, Inl e) \<Rightarrow> (CopyUsage (Name node) # evs, Inl e)
           | (evs, Inr rest') \<Rightarrow>
               (CopyUsage (Name node) # evs,
                Inr (node\<lparr>ResourceUsage := ResourceUsage cached\<rparr> # rest'))))"


text \<open>
  The block guarded by \<open>source.Period == ""\<close>. \<open>GetMetricsData\<close>, a method of the cache
  that is not part of the plugin's file, is a parameter: any function of the state
  outside the plugin.
\<close>

definition bootstrap ::
  "(Globals \<Rightarrow> Globals) \<Rightarrow> usagePlugin \<Rightarrow> Session \<Rightarrow> Globals
     \<Rightarrow> event list \<times> (panic + Session \<times> Globals)" where
  "bootstrap GetMetricsData up ssn g =
     (let g = g\<lparr>Period := SamplePeriods up\<rparr>;
          g = GetMetricsData g
      in case cache g of
           SchedulerCache nodes \<Rightarrow>
             (case copyUsage nodes (NodeList ssn) of
                (evs, Inl e) \<Rightarrow> (SetPeriod (SamplePeriods up) # MetricsRefresh # evs, Inl e)
              | (evs, Inr nodeList) \<Rightarrow>
                  (SetPeriod (SamplePeriods up) # MetricsRefresh # evs,
                   Inr (ssn\<lparr>NodeList := nodeList\<rparr>, g)))
         | OtherCache \<Rightarrow> ([SetPeriod (SamplePeriods up), MetricsRefresh], Inr (ssn, g)))"

text \<open>The end of \<open>OnSessionOpen\<close>: the two closures over the plugin are registered.\<close>

definition register :: "64 word \<Rightarrow> usagePlugin \<Rightarrow> Session \<Rightarrow> Session" where
  "register MaxNodeScore up ssn =
     ssn\<lparr>predicateFns := (predicateFns ssn)(PluginName \<mapsto> predicateFn up),
         nodeOrderFns := (nodeOrderFns ssn)(PluginName \<mapsto> nodeOrderFn MaxNodeScore up)\<rparr>"

definition OnSessionOpen ::
  "(Globals \<Rightarrow> Globals) \<Rightarrow> 64 word \<Rightarrow> usagePlugin \<Rightarrow> Session \<Rightarrow> Globals
     \<Rightarrow> event list \<times> (panic + usagePlugin \<times> Session \<times> Globals)" where
  "OnSessionOpen GetMetricsData MaxNodeScore up ssn g =
     (case pluginArguments up thresholdSection of
        None \<Rightarrow> ([], Inr (up, register MaxNodeScore up ssn, g))
      | Some argsValue \<Rightarrow>
          (let up = foldl thresholdStep up (thresholdEntries argsValue) in
           if Period g = '''' then
             (case bootstrap GetMetricsData up ssn g of
                (evs, Inl e) \<Rightarrow> (evs, Inl e)
              | (evs, Inr (ssn, g)) \<Rightarrow> (evs, Inr (up, register MaxNodeScore up ssn, g)))
           else ([], Inr (up, register MaxNodeScore up ssn, g))))"


section \<open>Rounding to float64\<close>

lemma rne_of_int: "rne (of_int k) = k"
  by (simp add: rne_def)

lemma rne_floor_le: "\<lfloor>x\<rfloor> \<le> rne x"
  by (simp add: rne_def Let_def)

lemma rne_le_floor_Suc: "rne x \<le> \<lfloor>x\<rfloor> + 1"
  by (simp add: rne_def Let_def)

lemma rne_mono: "x \<le> y \<Longrightarrow> rne x \<le> rne y"
proof -
  assume xy: "x \<le> y"
  have fl: "\<lfloor>x\<rfloor> \<le> \<lfloor>y\<rfloor>" using xy by (rule floor_mono)
  show ?thesis
  proof (cases "\<lfloor>x\<rfloor> = \<lfloor>y\<rfloor>")
    case True
    then have "x - of_int \<lfloor>x\<rfloor> \<le> y - of_int \<lfloor>y\<rfloor>" using xy by simp
    then show ?thesis using True by (auto simp: rne_def Let_def)
  next
    case False
    then have "\<lfloor>x\<rfloor> + 1 \<le> \<lfloor>y\<rfloor>" using fl by simp
    then show ?thesis using rne_le_floor_Suc [of x] rne_floor_le [of y] by linarith
  qed
qed

lemma rne_minus: "rne (- x) = - rne x"
proof (cases "x \<in> \<int>")
  case True
  then obtain k where "x = of_int k" by (auto elim: Ints_cases)
  then have "- x = of_int (- k)" by simp
  then show ?thesis using rne_of_int \<open>x = of_int k\<close> by metis
next
  case False
  then have ne: "x \<noteq> of_int \<lfloor>x\<rfloor>"
    by (metis Ints_of_int)
  then have fl: "\<lfloor>- x\<rfloor> = - \<lfloor>x\<rfloor> - 1"
    by (simp add: floor_minus ceiling_altdef)
  have d: "x - of_int \<lfloor>x\<rfloor> \<noteq> 0" using ne by simp
  show ?thesis
    unfolding rne_def Let_def fl using d
    by (auto simp: algebra_simps)
qed

lemma flt_irrefl: "\<not> flt a a"
  by (cases a) simp_all

lemma fexp_minus: "fexp (- x) = fexp x"
  by (simp add: fexp_def)

lemma rounded_minus: "rounded (- x) = - rounded x"
  by (simp add: rounded_def mant_def fexp_minus rne_minus)

lemma bitlen_mono: "a \<le> b \<Longrightarrow> bitlen a \<le> bitlen b"
  by (simp add: bitlen_def floorlog_mono)

lemma fexp_mono: "\<bar>x\<bar> \<le> \<bar>y\<bar> \<Longrightarrow> fexp x \<le> fexp y"
proof -
  assume "\<bar>x\<bar> \<le> \<bar>y\<bar>"
  then have "\<bar>x\<bar> * 2 ^ emin \<le> \<bar>y\<bar> * 2 ^ emin" by simp
  then have "\<lfloor>\<bar>x\<bar> * 2 ^ emin\<rfloor> \<le> \<lfloor>\<bar>y\<bar> * 2 ^ emin\<rfloor>" by (rule floor_mono)
  then have "bitlen \<lfloor>\<bar>x\<bar> * 2 ^ emin\<rfloor> \<le> bitlen \<lfloor>\<bar>y\<bar> * 2 ^ emin\<rfloor>" by (rule bitlen_mono)
  then show ?thesis by (simp add: fexp_def)
qed

lemma fexp_pos_bounds:
  assumes "0 < fexp x"
  shows "2 ^ (52 + fexp x) \<le> \<bar>x\<bar> * 2 ^ emin" and "\<bar>x\<bar> * 2 ^ emin < 2 ^ (53 + fexp x)"
proof -
  define n where "n = \<lfloor>\<bar>x\<bar> * 2 ^ emin\<rfloor>"
  have bl: "bitlen n = 53 + int (fexp x)" using assms by (simp add: fexp_def n_def)
  then have npos: "0 < n" using bitlen_eq_zero_iff [of n] by (cases "0 < n") auto
  have e1: "nat (bitlen n - 1) = 52 + fexp x" using bl by simp
  have e2: "nat (bitlen n) = 53 + fexp x" using bl by simp
  from bitlen_bounds [OF npos] have b: "2 ^ (52 + fexp x) \<le> n" "n < 2 ^ (53 + fexp x)"
    unfolding e1 e2 by auto
  have "real_of_int ((2::int) ^ (52 + fexp x)) \<le> real_of_int n" using b(1) by (simp only: of_int_le_iff)
  also have "real_of_int n \<le> \<bar>x\<bar> * 2 ^ emin" by (simp add: n_def)
  finally show "2 ^ (52 + fexp x) \<le> \<bar>x\<bar> * 2 ^ emin" by simp
  have "n + 1 \<le> 2 ^ (53 + fexp x)" using b(2) by simp
  then have "real_of_int (n + 1) \<le> real_of_int ((2::int) ^ (53 + fexp x))" by (simp only: of_int_le_iff)
  moreover have "\<bar>x\<bar> * 2 ^ emin < real_of_int (n + 1)" unfolding n_def by linarith
  ultimately show "\<bar>x\<bar> * 2 ^ emin < 2 ^ (53 + fexp x)" by simp
qed

lemma fexp_zero_bound:
  assumes "fexp x = 0"
  shows "\<bar>x\<bar> * 2 ^ emin < 2 ^ 53"
proof -
  define n where "n = \<lfloor>\<bar>x\<bar> * 2 ^ emin\<rfloor>"
  have bl: "bitlen n \<le> 53" using assms by (simp add: fexp_def n_def)
  have nn: "0 \<le> n" by (simp add: n_def)
  have "n < 2 ^ 53"
  proof (cases "0 < n")
    case True
    from bitlen_bounds [OF True] have "n < 2 ^ nat (bitlen n)" by simp
    also have "(2::int) ^ nat (bitlen n) \<le> 2 ^ 53"
      by (rule power_increasing) (use bl in auto)
    finally show ?thesis .
  next
    case False
    then show ?thesis using nn by simp
  qed
  then have "n + 1 \<le> 2 ^ 53" by simp
  then have "real_of_int (n + 1) \<le> real_of_int (2 ^ 53)" by (simp only: of_int_le_iff)
  moreover have "\<bar>x\<bar> * 2 ^ emin < real_of_int (n + 1)" unfolding n_def by linarith
  ultimately show ?thesis by simp
qed

lemma fexp_upper: "\<bar>x\<bar> * 2 ^ emin < 2 ^ (53 + fexp x)"
  using fexp_pos_bounds(2) [of x] fexp_zero_bound [of x] by (cases "fexp x = 0") auto

lemma rounded_mant: "rounded x = of_int (mant x) * 2 ^ fexp x / 2 ^ emin"
  by (simp add: rounded_def)

lemma mant_le: "mant x \<le> 2 ^ 53"
proof -
  have "x * 2 ^ emin \<le> \<bar>x\<bar> * 2 ^ emin" by (simp add: mult_right_mono)
  also have "\<dots> < 2 ^ (53 + fexp x)" by (rule fexp_upper)
  finally have "x * 2 ^ emin / 2 ^ fexp x < 2 ^ 53"
    by (simp add: power_add divide_less_eq)
  then have "x * 2 ^ emin / 2 ^ fexp x \<le> real_of_int (2 ^ 53)" by simp
  from rne_mono [OF this] show ?thesis unfolding mant_def by (simp only: rne_of_int)
qed

lemma mant_ge:
  assumes "0 < fexp x" "0 \<le> x"
  shows "2 ^ 52 \<le> mant x"
proof -
  have "2 ^ (52 + fexp x) \<le> x * 2 ^ emin" using fexp_pos_bounds(1) [OF assms(1)] assms(2) by simp
  then have "real_of_int (2 ^ 52) \<le> x * 2 ^ emin / 2 ^ fexp x"
    by (simp add: power_add le_divide_eq)
  from rne_mono [OF this] show ?thesis unfolding mant_def by (simp only: rne_of_int)
qed

lemma mant_nonneg: "0 \<le> x \<Longrightarrow> 0 \<le> mant x"
proof -
  assume "0 \<le> x"
  then have "real_of_int 0 \<le> x * 2 ^ emin / 2 ^ fexp x" by simp
  from rne_mono [OF this] show ?thesis unfolding mant_def by (simp only: rne_of_int)
qed

lemma rounded_nonneg: "0 \<le> x \<Longrightarrow> 0 \<le> rounded x"
  using mant_nonneg [of x] by (simp add: rounded_mant)

lemma rounded_mono_nonneg:
  assumes "0 \<le> x" "x \<le> y"
  shows "rounded x \<le> rounded y"
proof -
  have le: "fexp x \<le> fexp y" using assms by (intro fexp_mono) simp
  have "real_of_int (mant x) * 2 ^ fexp x \<le> real_of_int (mant y) * 2 ^ fexp y"
  proof (cases "fexp x = fexp y")
    case True
    have "x * 2 ^ emin / 2 ^ fexp y \<le> y * 2 ^ emin / 2 ^ fexp y"
      using assms(2) by (simp add: divide_right_mono)
    from rne_mono [OF this] have "mant x \<le> mant y" by (simp add: mant_def True)
    then show ?thesis by (simp add: True)
  next
    case False
    then have lt: "fexp x < fexp y" using le by simp
    then have py: "0 < fexp y" by simp
    have y0: "0 \<le> y" using assms by simp
    have "real_of_int (mant x) * 2 ^ fexp x \<le> real_of_int (2 ^ 53) * 2 ^ fexp x"
      using mant_le [of x] by (intro mult_right_mono) (simp_all only: of_int_le_iff, simp)
    also have "\<dots> = 2 ^ (53 + fexp x)" by (simp add: power_add)
    also have "\<dots> \<le> (2::real) ^ (52 + fexp y)"
      by (rule power_increasing) (use lt in auto)
    also have "\<dots> = real_of_int (2 ^ 52) * 2 ^ fexp y" by (simp add: power_add)
    also have "\<dots> \<le> real_of_int (mant y) * 2 ^ fexp y"
      using mant_ge [OF py y0] by (intro mult_right_mono) (simp_all only: of_int_le_iff, simp)
    finally show ?thesis .
  qed
  then show ?thesis by (simp add: rounded_mant divide_right_mono)
qed

lemma rounded_mono: "x \<le> y \<Longrightarrow> rounded x \<le> rounded y"
proof -
  assume xy: "x \<le> y"
  consider "0 \<le> x" | "y \<le> 0" | "x < 0" "0 < y" by linarith
  then show ?thesis
  proof cases
    case 1
    then show ?thesis using xy by (rule rounded_mono_nonneg)
  next
    case 2
    then have "rounded (- y) \<le> rounded (- x)" using xy by (intro rounded_mono_nonneg) simp_all
    then show ?thesis by (simp add: rounded_minus)
  next
    case 3
    have "0 \<le> rounded (- x)" using 3 by (intro rounded_nonneg) simp
    then have "rounded x \<le> 0" by (simp add: rounded_minus)
    moreover have "0 \<le> rounded y" using 3 by (intro rounded_nonneg) simp
    ultimately show ?thesis by simp
  qed
qed

lemma classify_mono: "r \<le> r' \<Longrightarrow> fle (classify r) (classify r')"
  by (auto simp: classify_def fle_def feq_def)

lemma round64_mono: "x \<le> y \<Longrightarrow> fle (round64 x) (round64 y)"
  unfolding round64_def by (rule classify_mono) (rule rounded_mono)

lemma rounded_exact:
  assumes "x * 2 ^ emin / 2 ^ fexp x \<in> \<int>"
  shows "rounded x = x"
proof -
  from assms obtain k where k: "x * 2 ^ emin / 2 ^ fexp x = of_int k" by (auto elim: Ints_cases)
  have "rounded x = of_int k * 2 ^ fexp x / 2 ^ emin"
    unfolding rounded_def mant_def k rne_of_int ..
  also have "\<dots> = x" unfolding k [symmetric] by simp
  finally show ?thesis .
qed

lemma rounded_representable_pos:
  assumes "0 < m" "m \<le> 2 ^ 53"
  shows "rounded (of_int m * 2 ^ s / 2 ^ emin) = of_int m * 2 ^ s / 2 ^ emin"
proof (rule rounded_exact)
  let ?x = "real_of_int m * 2 ^ s / 2 ^ emin"
  have sc: "\<bar>?x\<bar> * 2 ^ emin = of_int (m * 2 ^ s)" using assms by (simp add: abs_mult)
  have fe: "fexp ?x = nat (bitlen m + int s - 53)"
    unfolding fexp_def sc floor_of_int using bitlen_pow2 [OF assms(1), of s] by simp
  have x2: "?x * 2 ^ emin = of_int m * 2 ^ s" by simp
  have b54: "bitlen m \<le> 54"
    using assms by (simp add: bitlen_le_iff_power)
  show "?x * 2 ^ emin / 2 ^ fexp ?x \<in> \<int>"
  proof (cases "bitlen m \<le> 53")
    case True
    then have le: "fexp ?x \<le> s" unfolding fe by simp
    have "?x * 2 ^ emin / 2 ^ fexp ?x = of_int m * 2 ^ (s - fexp ?x)"
      unfolding x2 using le by (simp add: power_diff)
    also have "\<dots> = of_int (m * 2 ^ (s - fexp ?x))" by simp
    finally show ?thesis by (simp only: Ints_of_int)
  next
    case False
    then have b: "bitlen m = 54" using b54 by simp
    from bitlen_bounds [OF assms(1)] have "2 ^ 53 \<le> m" unfolding b by simp
    then have m: "m = 2 ^ 53" using assms(2) by simp
    have fs: "fexp ?x = Suc s" unfolding fe b by simp
    have "?x * 2 ^ emin / 2 ^ fexp ?x = of_int m * 2 ^ s / 2 ^ Suc s"
      by (simp only: x2 fs)
    also have "\<dots> = of_int (2 ^ 52)" by (simp add: m)
    finally show ?thesis by (simp only: Ints_of_int)
  qed
qed

lemma rounded_zero: "rounded 0 = 0"
  by (rule rounded_exact) simp

lemma rounded_representable:
  assumes "\<bar>m\<bar> \<le> 2 ^ 53"
  shows "rounded (of_int m * 2 ^ s / 2 ^ emin) = of_int m * 2 ^ s / 2 ^ emin"
proof -
  consider "m = 0" | "0 < m" | "m < 0" by linarith
  then show ?thesis
  proof cases
    case 1
    then show ?thesis by (simp add: rounded_zero)
  next
    case 2
    then show ?thesis using assms by (intro rounded_representable_pos) simp_all
  next
    case 3
    then have "rounded (of_int (- m) * 2 ^ s / 2 ^ emin) = of_int (- m) * 2 ^ s / 2 ^ emin"
      using assms by (intro rounded_representable_pos) simp_all
    then have "rounded (- (of_int m * 2 ^ s / 2 ^ emin)) = - (of_int m * 2 ^ s / 2 ^ emin)"
      by simp
    then show ?thesis unfolding rounded_minus by simp
  qed
qed

lemma mant_minus: "mant (- x) = - mant x"
  by (simp add: mant_def fexp_minus rne_minus)

lemma mant_abs_le: "\<bar>mant x\<bar> \<le> 2 ^ 53"
  using mant_le [of x] mant_le [of "- x"] by (simp add: mant_minus)

lemma rounded_idem: "rounded (rounded x) = rounded x"
  unfolding rounded_mant [of x] by (rule rounded_representable) (rule mant_abs_le)

lemma rounded_of_int:
  assumes "\<bar>n\<bar> \<le> 2 ^ 53"
  shows "rounded (of_int n) = of_int n"
  using rounded_representable [OF assms, of emin] by simp

lemma two53_lt_emax: "(2::real) ^ 53 < 2 ^ emax"
  by (rule power_strict_increasing) (simp_all add: emax_def)

lemma classify_Fin: "\<bar>r\<bar> < 2 ^ emax \<Longrightarrow> classify r = Fin r"
  by (auto simp: classify_def)

lemma round64_of_int:
  assumes "\<bar>n\<bar> \<le> 2 ^ 53"
  shows "round64 (of_int n) = Fin (of_int n)"
proof -
  have "\<bar>real_of_int n\<bar> \<le> real_of_int (2 ^ 53)" using assms by (simp only: of_int_abs [symmetric] of_int_le_iff)
  then have "\<bar>real_of_int n\<bar> < 2 ^ emax" using two53_lt_emax by simp
  then show ?thesis by (simp add: round64_def rounded_of_int [OF assms] classify_Fin)
qed

lemma float64_of_int_small:
  "\<bar>sint n\<bar> \<le> 2 ^ 53 \<Longrightarrow> float64_of_int n = Fin (real_of_int (sint n))"
  unfolding float64_of_int_def by (rule round64_of_int)

lemma float64_of_int_0: "float64_of_int 0 = Fin 0"
  using float64_of_int_small [of 0] by simp

lemma rounded_pow2: "rounded (2 ^ k) = 2 ^ k"
  using rounded_representable [of 1 "emin + k"] by (simp add: power_add)

lemma rounded_int64_bounds:
  "\<bar>rounded (real_of_int (sint (n :: 64 word)))\<bar> \<le> 2 ^ 63"
proof -
  have lo: "- (2 ^ 63) \<le> sint n" using sint_ge [of n] by simp
  have hi: "sint n \<le> 2 ^ 63" using sint_lt [of n] by simp
  have "real_of_int (sint n) \<le> real_of_int (2 ^ 63)" using hi by (simp only: of_int_le_iff)
  then have "real_of_int (sint n) \<le> 2 ^ 63" by simp
  from rounded_mono [OF this] have 1: "rounded (real_of_int (sint n)) \<le> 2 ^ 63"
    by (simp only: rounded_pow2)
  have "real_of_int (- (2 ^ 63)) \<le> real_of_int (sint n)" using lo by (simp only: of_int_le_iff)
  then have "- (2 ^ 63) \<le> real_of_int (sint n)" by simp
  from rounded_mono [OF this] have 2: "- (2 ^ 63) \<le> rounded (real_of_int (sint n))"
    by (simp only: rounded_minus rounded_pow2)
  from 1 2 show ?thesis by simp
qed

lemma two63_lt_emax: "(2::real) ^ 63 < 2 ^ emax"
  by (rule power_strict_increasing) (simp_all add: emax_def)

lemma float64_of_int_Fin: "float64_of_int n = Fin (rounded (real_of_int (sint n)))"
proof -
  have "\<bar>rounded (real_of_int (sint n))\<bar> < 2 ^ emax"
    using rounded_int64_bounds [of n] two63_lt_emax by linarith
  then show ?thesis unfolding float64_of_int_def round64_def by (rule classify_Fin)
qed

lemma float64_of_int_negative:
  assumes "sint n < 0"
  shows "flt (float64_of_int n) (Fin 0)"
proof -
  have "sint n \<le> - 1" using assms by simp
  then have "real_of_int (sint n) \<le> real_of_int (- 1)" by (simp only: of_int_le_iff)
  from rounded_mono [OF this] have "rounded (real_of_int (sint n)) \<le> - 1"
    using rounded_of_int [of "- 1"] by simp
  then show ?thesis by (simp add: float64_of_int_Fin)
qed

lemma float64_of_int_nonneg:
  assumes "0 \<le> sint n"
  shows "\<exists>w. float64_of_int n = Fin w \<and> 0 \<le> w"
proof -
  have "0 \<le> real_of_int (sint n)" using assms by (simp only: of_int_0_le_iff)
  then have "0 \<le> rounded (real_of_int (sint n))" by (rule rounded_nonneg)
  then show ?thesis by (simp add: float64_of_int_Fin)
qed

section \<open>Configuration\<close>

lemma New_empty: "New Map.empty = \<lparr>pluginArguments = Map.empty, weight = 1, usageType = ''average'',
    cpuThresholds = Fin 80, memThresholds = Fin 80, SamplePeriods = ''10m''\<rparr>"
  by (simp add: New_def GetInt_def AVG_def)

lemma New_fields:
  "pluginArguments (New args) = args"
  "cpuThresholds (New args) = Fin 80"
  "memThresholds (New args) = Fin 80"
  by (simp_all add: New_def Let_def split: option.split gval.split)

lemma resolveThresholds_no_section:
  "pluginArguments up thresholdSection = None \<Longrightarrow> resolveThresholds up = up"
  by (simp add: resolveThresholds_def)

lemma thresholdStep_SamplePeriods: "SamplePeriods (thresholdStep up kv) = SamplePeriods up"
  by (simp add: thresholdStep_def Let_def)

lemma foldl_thresholdStep_SamplePeriods:
  "SamplePeriods (foldl thresholdStep up kvs) = SamplePeriods up"
  by (induction kvs arbitrary: up) (simp_all add: thresholdStep_SamplePeriods)

lemma resolveThresholds_SamplePeriods: "SamplePeriods (resolveThresholds up) = SamplePeriods up"
  by (simp add: resolveThresholds_def foldl_thresholdStep_SamplePeriods split: option.split)

lemma resolveThresholds_cpu_entry:
  "pluginArguments up thresholdSection = Some (GMap [(GString ''cpu'', v)]) \<Longrightarrow>
   resolveThresholds up = up\<lparr>cpuThresholds := float64_of_int (assertInt v)\<rparr>"
  by (simp add: resolveThresholds_def thresholdEntries_def thresholdStep_def assertString_def)


text \<open>
  C1, at a configuration whose thresholds section binds "cpu" to the string "70" and
  "mem" to a floating-point number: the failed assertion \<open>v.(int)\<close> yields 0, and both
  thresholds are overwritten with 0 instead of keeping the default 80.
\<close>

theorem non_integer_threshold_becomes_zero:
  "cpuThresholds (resolveThresholds (New [''thresholds'' \<mapsto>
      GMap [(GString ''cpu'', GString ''70''), (GString ''mem'', GFloat (Fin (141 / 2)))]])) = Fin 0
   \<and> memThresholds (resolveThresholds (New [''thresholds'' \<mapsto>
      GMap [(GString ''cpu'', GString ''70''), (GString ''mem'', GFloat (Fin (141 / 2)))]])) = Fin 0"
  by (simp add: resolveThresholds_def New_fields thresholdSection_def thresholdEntries_def
      thresholdStep_def assertString_def assertInt_def float64_of_int_0)

section \<open>Filtering\<close>

lemma feq_not_fgt: "feq a b \<Longrightarrow> \<not> fgt a b"
  by (simp add: feq_def fgt_def flt_irrefl)

text \<open>
  C2, as stated, fails: the filter checks both resources, so a CPU utilization equal to
  its threshold does not make the filter pass. With the default thresholds of 80 and the
  sample period "10m", a node with CPU utilization 80 and memory utilization 81 is
  rejected for its memory.
\<close>

theorem cpu_on_threshold_rejected_counterexample:
  "SamplePeriods (New Map.empty) = ''10m''
   \<and> cpuThresholds (New Map.empty) = Fin 80
   \<and> feq (usageAt (CPUUsageAvg (ResourceUsage
          \<lparr>Name = ''n3'', ResourceUsage = \<lparr>CPUUsageAvg = [''10m'' \<mapsto> Fin 80],
                                            MEMUsageAvg = [''10m'' \<mapsto> Fin 81]\<rparr>\<rparr>)) ''10m'')
        (cpuThresholds (New Map.empty))
   \<and> predicateFn (New Map.empty) \<lparr>Namespace = ''default'', TaskName = ''t''\<rparr>
       \<lparr>Name = ''n3'', ResourceUsage = \<lparr>CPUUsageAvg = [''10m'' \<mapsto> Fin 80],
                                         MEMUsageAvg = [''10m'' \<mapsto> Fin 81]\<rparr>\<rparr> =
       Some (MemUsageExceeds ''n3'' (Fin 81) (Fin 80))"
  by (simp add: New_empty predicateFn_def usageAt_def feq_def fgt_def)

text \<open>
  C2, amended. With a non-empty sample period, a node whose looked-up CPU utilization
  equals the CPU threshold passes when its memory utilization does not exceed the memory
  threshold (in particular when that is on its threshold too), and likewise for memory;
  a looked-up utilization strictly greater than its threshold is rejected, with the
  node's name, the measured value and the threshold.
\<close>

theorem filter_threshold_boundary:
  assumes "SamplePeriods up \<noteq> ''''"
    and "cpu = usageAt (CPUUsageAvg (ResourceUsage node)) (SamplePeriods up)"
    and "mem = usageAt (MEMUsageAvg (ResourceUsage node)) (SamplePeriods up)"
  shows "(feq cpu (cpuThresholds up) \<and> feq mem (memThresholds up)
            \<longrightarrow> predicateFn up task node = None)
       \<and> (feq cpu (cpuThresholds up) \<and> \<not> fgt mem (memThresholds up)
            \<longrightarrow> predicateFn up task node = None)
       \<and> (\<not> fgt cpu (cpuThresholds up) \<and> feq mem (memThresholds up)
            \<longrightarrow> predicateFn up task node = None)
       \<and> (fgt cpu (cpuThresholds up)
            \<longrightarrow> predicateFn up task node = Some (CpuUsageExceeds (Name node) cpu (cpuThresholds up)))
       \<and> (\<not> fgt cpu (cpuThresholds up) \<and> fgt mem (memThresholds up)
            \<longrightarrow> predicateFn up task node = Some (MemUsageExceeds (Name node) mem (memThresholds up)))
       \<and> (fgt mem (memThresholds up) \<longrightarrow> predicateFn up task node \<noteq> None)"
  using assms by (auto simp: predicateFn_def dest: feq_not_fgt)

theorem filter_threshold_boundary_witness:
  "predicateFn (New Map.empty) \<lparr>Namespace = ''default'', TaskName = ''t''\<rparr>
     \<lparr>Name = ''n1'', ResourceUsage = \<lparr>CPUUsageAvg = [''10m'' \<mapsto> Fin 80], MEMUsageAvg = [''10m'' \<mapsto> Fin 80]\<rparr>\<rparr> = None
   \<and> predicateFn (New Map.empty) \<lparr>Namespace = ''default'', TaskName = ''t''\<rparr>
     \<lparr>Name = ''n2'', ResourceUsage = \<lparr>CPUUsageAvg = [''10m'' \<mapsto> Fin 81], MEMUsageAvg = [''10m'' \<mapsto> Fin 40]\<rparr>\<rparr> =
       Some (CpuUsageExceeds ''n2'' (Fin 81) (Fin 80))
   \<and> predicateFn (New Map.empty) \<lparr>Namespace = ''default'', TaskName = ''t''\<rparr>
     \<lparr>Name = ''n3'', ResourceUsage = \<lparr>CPUUsageAvg = [''10m'' \<mapsto> Fin 80], MEMUsageAvg = [''10m'' \<mapsto> Fin 81]\<rparr>\<rparr> =
       Some (MemUsageExceeds ''n3'' (Fin 81) (Fin 80))"
  using filter_threshold_boundary [of "New Map.empty" "Fin 80"
      "\<lparr>Name = ''n1'', ResourceUsage = \<lparr>CPUUsageAvg = [''10m'' \<mapsto> Fin 80], MEMUsageAvg = [''10m'' \<mapsto> Fin 80]\<rparr>\<rparr>"
      "Fin 80" "\<lparr>Namespace = ''default'', TaskName = ''t''\<rparr>"]
    filter_threshold_boundary [of "New Map.empty" "Fin 81"
      "\<lparr>Name = ''n2'', ResourceUsage = \<lparr>CPUUsageAvg = [''10m'' \<mapsto> Fin 81], MEMUsageAvg = [''10m'' \<mapsto> Fin 40]\<rparr>\<rparr>"
      "Fin 40" "\<lparr>Namespace = ''default'', TaskName = ''t''\<rparr>"]
    filter_threshold_boundary [of "New Map.empty" "Fin 80"
      "\<lparr>Name = ''n3'', ResourceUsage = \<lparr>CPUUsageAvg = [''10m'' \<mapsto> Fin 80], MEMUsageAvg = [''10m'' \<mapsto> Fin 81]\<rparr>\<rparr>"
      "Fin 81" "\<lparr>Namespace = ''default'', TaskName = ''t''\<rparr>"]
  by (simp add: New_empty usageAt_def feq_def fgt_def)

text \<open>
  C4. When the sample period is the empty string, the filter passes and the score is 0
  without an error, whatever the node's snapshot holds.
\<close>

theorem empty_period_passes_and_scores_zero:
  "SamplePeriods up = '''' \<Longrightarrow>
   predicateFn up task node = None \<and> nodeOrderFn MaxNodeScore up task node = (Fin 0, None)"
  by (simp add: predicateFn_def nodeOrderFn_def)

theorem empty_period_passes_and_scores_zero_witness:
  "SamplePeriods (New [''period'' \<mapsto> GString '''']) = ''''
   \<and> predicateFn (New [''period'' \<mapsto> GString '''']) \<lparr>Namespace = ''default'', TaskName = ''t''\<rparr>
       \<lparr>Name = ''n1'', ResourceUsage = \<lparr>CPUUsageAvg = ['''' \<mapsto> Fin 99, ''10m'' \<mapsto> Fin 99],
                                         MEMUsageAvg = ['''' \<mapsto> Fin 99, ''10m'' \<mapsto> Fin 99]\<rparr>\<rparr> = None
   \<and> nodeOrderFn 100 (New [''period'' \<mapsto> GString '''']) \<lparr>Namespace = ''default'', TaskName = ''t''\<rparr>
       \<lparr>Name = ''n1'', ResourceUsage = \<lparr>CPUUsageAvg = ['''' \<mapsto> Fin 99, ''10m'' \<mapsto> Fin 99],
                                         MEMUsageAvg = ['''' \<mapsto> Fin 99, ''10m'' \<mapsto> Fin 99]\<rparr>\<rparr> = (Fin 0, None)"
  using empty_period_passes_and_scores_zero [of "New [''period'' \<mapsto> GString '''']"
      "\<lparr>Namespace = ''default'', TaskName = ''t''\<rparr>"
      "\<lparr>Name = ''n1'', ResourceUsage = \<lparr>CPUUsageAvg = ['''' \<mapsto> Fin 99, ''10m'' \<mapsto> Fin 99],
                                         MEMUsageAvg = ['''' \<mapsto> Fin 99, ''10m'' \<mapsto> Fin 99]\<rparr>\<rparr>" 100]
  by (simp add: New_def GetInt_def)

text \<open>
  C10. The thresholds are not checked against the range 0 to 100: when the thresholds
  section binds "cpu" to a negative integer, a node with no CPU utilization entry for the
  sample period, whose lookup reads 0, is rejected, since 0 exceeds the negative threshold.
\<close>

theorem negative_threshold_rejects_node_without_entry:
  assumes "sint n < 0"
    and "pluginArguments up thresholdSection = Some (GMap [(GString ''cpu'', GInt n)])"
    and "SamplePeriods up \<noteq> ''''"
    and "CPUUsageAvg (ResourceUsage node) (SamplePeriods up) = None"
  shows "flt (cpuThresholds (resolveThresholds up)) (Fin 0)
       \<and> predicateFn (resolveThresholds up) task node =
           Some (CpuUsageExceeds (Name node) (Fin 0) (cpuThresholds (resolveThresholds up)))"
  using assms float64_of_int_negative [OF assms(1)]
  by (simp add: resolveThresholds_cpu_entry assertInt_def predicateFn_def usageAt_def fgt_def)

theorem negative_threshold_rejects_node_without_entry_witness:
  "sint (- 1 :: 64 word) < 0
   \<and> predicateFn (resolveThresholds (New [''thresholds'' \<mapsto> GMap [(GString ''cpu'', GInt (- 1))]]))
       \<lparr>Namespace = ''default'', TaskName = ''t''\<rparr>
       \<lparr>Name = ''n1'', ResourceUsage = \<lparr>CPUUsageAvg = Map.empty, MEMUsageAvg = Map.empty\<rparr>\<rparr> =
       Some (CpuUsageExceeds ''n1'' (Fin 0) (Fin (- 1)))"
proof -
  have t: "float64_of_int (- 1) = Fin (- 1)" using float64_of_int_small [of "- 1"] by simp
  show ?thesis
    using negative_threshold_rejects_node_without_entry [of "- 1"
        "New [''thresholds'' \<mapsto> GMap [(GString ''cpu'', GInt (- 1))]]"
        "\<lparr>Name = ''n1'', ResourceUsage = \<lparr>CPUUsageAvg = Map.empty, MEMUsageAvg = Map.empty\<rparr>\<rparr>"
        "\<lparr>Namespace = ''default'', TaskName = ''t''\<rparr>"]
    by (simp add: New_def GetInt_def thresholdSection_def resolveThresholds_def thresholdEntries_def
        thresholdStep_def assertString_def assertInt_def t)
qed

text \<open>
  C5, as stated, fails: with the thresholds section binding "cpu" to -1, a node with no
  entry at all for the sample period "10m" is rejected.
\<close>

theorem missing_entry_rejected_counterexample:
  "SamplePeriods (resolveThresholds (New [''thresholds'' \<mapsto> GMap [(GString ''cpu'', GInt (- 1))]])) = ''10m''
   \<and> CPUUsageAvg (ResourceUsage \<lparr>Name = ''n1'', ResourceUsage = \<lparr>CPUUsageAvg = Map.empty, MEMUsageAvg = Map.empty\<rparr>\<rparr>) ''10m'' = None
   \<and> MEMUsageAvg (ResourceUsage \<lparr>Name = ''n1'', ResourceUsage = \<lparr>CPUUsageAvg = Map.empty, MEMUsageAvg = Map.empty\<rparr>\<rparr>) ''10m'' = None
   \<and> predicateFn (resolveThresholds (New [''thresholds'' \<mapsto> GMap [(GString ''cpu'', GInt (- 1))]]))
       \<lparr>Namespace = ''default'', TaskName = ''t''\<rparr>
       \<lparr>Name = ''n1'', ResourceUsage = \<lparr>CPUUsageAvg = Map.empty, MEMUsageAvg = Map.empty\<rparr>\<rparr> \<noteq> None"
proof -
  have t: "float64_of_int (- 1) = Fin (- 1)" using float64_of_int_small [of "- 1"] by simp
  show ?thesis
    by (simp add: New_def GetInt_def thresholdSection_def resolveThresholds_def thresholdEntries_def
        thresholdStep_def assertString_def assertInt_def t predicateFn_def usageAt_def fgt_def)
qed

text \<open>
  C5, amended. With a non-empty sample period and a node that has no entry for it, in
  either map, the filter passes exactly when neither threshold is negative (each lookup
  reads 0, which exceeds a negative threshold only); the score is 0 without an error as
  soon as the CPU entry is missing.
\<close>

theorem missing_entry_passes_and_scores_zero:
  assumes "SamplePeriods up \<noteq> ''''"
    and "CPUUsageAvg (ResourceUsage node) (SamplePeriods up) = None"
    and "MEMUsageAvg (ResourceUsage node) (SamplePeriods up) = None"
  shows "(predicateFn up task node = None \<longleftrightarrow>
            \<not> flt (cpuThresholds up) (Fin 0) \<and> \<not> flt (memThresholds up) (Fin 0))
       \<and> nodeOrderFn MaxNodeScore up task node = (Fin 0, None)"
  using assms by (simp add: predicateFn_def nodeOrderFn_def usageAt_def fgt_def)

theorem missing_entry_passes_and_scores_zero_witness:
  "predicateFn (New Map.empty) \<lparr>Namespace = ''default'', TaskName = ''t''\<rparr>
       \<lparr>Name = ''n1'', ResourceUsage = \<lparr>CPUUsageAvg = [''5m'' \<mapsto> Fin 99], MEMUsageAvg = Map.empty\<rparr>\<rparr> = None
   \<and> nodeOrderFn 100 (New Map.empty) \<lparr>Namespace = ''default'', TaskName = ''t''\<rparr>
       \<lparr>Name = ''n1'', ResourceUsage = \<lparr>CPUUsageAvg = [''5m'' \<mapsto> Fin 99], MEMUsageAvg = Map.empty\<rparr>\<rparr> = (Fin 0, None)"
  using missing_entry_passes_and_scores_zero [of "New Map.empty"
      "\<lparr>Name = ''n1'', ResourceUsage = \<lparr>CPUUsageAvg = [''5m'' \<mapsto> Fin 99], MEMUsageAvg = Map.empty\<rparr>\<rparr>"
      "\<lparr>Namespace = ''default'', TaskName = ''t''\<rparr>" 100]
  by (simp add: New_empty)

section \<open>Opening a session\<close>


lemma OnSessionOpen_run:
  assumes "pluginArguments up thresholdSection = Some argsValue" and "Period g = ''''"
  shows "OnSessionOpen GetMetricsData MaxNodeScore up ssn g =
           (case bootstrap GetMetricsData (resolveThresholds up) ssn g of
              (evs, Inl e) \<Rightarrow> (evs, Inl e)
            | (evs, Inr (ssn', g')) \<Rightarrow>
                (evs, Inr (resolveThresholds up, register MaxNodeScore (resolveThresholds up) ssn', g')))"
proof -
  have r: "resolveThresholds up = foldl thresholdStep up (thresholdEntries argsValue)"
    using assms by (simp add: resolveThresholds_def)
  show ?thesis unfolding r using assms by (simp add: OnSessionOpen_def Let_def)
qed



lemma copyUsage_panic_iff:
  "(\<exists>e. snd (copyUsage nodes nodeList) = Inl e) \<longleftrightarrow> \<not> list_all (\<lambda>node. nodes (Name node) \<noteq> None) nodeList"
  by (induction nodeList) (auto split: option.split prod.split sum.split)



lemma bootstrap_OtherCache:
  "cache (GetMetricsData (g\<lparr>Period := SamplePeriods up\<rparr>)) = OtherCache \<Longrightarrow>
   bootstrap GetMetricsData up ssn g =
     ([SetPeriod (SamplePeriods up), MetricsRefresh], Inr (ssn, GetMetricsData (g\<lparr>Period := SamplePeriods up\<rparr>)))"
  by (simp add: bootstrap_def Let_def)






text \<open>
  C9. When the bootstrap runs and the cache is not a \<open>SchedulerCache\<close>, opening the
  session sets the indicator and refreshes the metrics, in this order, copies nothing,
  leaves the session's node list as it was and succeeds.
\<close>

theorem unrecognized_cache_skips_copy:
  assumes "pluginArguments up thresholdSection = Some argsValue"
    and "Period g = ''''"
    and "cache (GetMetricsData (g\<lparr>Period := SamplePeriods up\<rparr>)) = OtherCache"
  shows "OnSessionOpen GetMetricsData MaxNodeScore up ssn g =
           ([SetPeriod (SamplePeriods up), MetricsRefresh],
            Inr (resolveThresholds up, register MaxNodeScore (resolveThresholds up) ssn,
                 GetMetricsData (g\<lparr>Period := SamplePeriods up\<rparr>)))
       \<and> NodeList (register MaxNodeScore (resolveThresholds up) ssn) = NodeList ssn"
  using assms
  by (simp add: OnSessionOpen_run [OF assms(1,2)] bootstrap_OtherCache
      resolveThresholds_SamplePeriods register_def)

theorem unrecognized_cache_skips_copy_witness:
  "OnSessionOpen id 100 (New [''thresholds'' \<mapsto> GMap []])
     \<lparr>NodeList = [\<lparr>Name = ''n1'', ResourceUsage = \<lparr>CPUUsageAvg = Map.empty, MEMUsageAvg = Map.empty\<rparr>\<rparr>],
      predicateFns = Map.empty, nodeOrderFns = Map.empty\<rparr>
     \<lparr>Period = '''', cache = OtherCache\<rparr> =
     ([SetPeriod ''10m'', MetricsRefresh],
      Inr (New [''thresholds'' \<mapsto> GMap []],
           register 100 (New [''thresholds'' \<mapsto> GMap []])
             \<lparr>NodeList = [\<lparr>Name = ''n1'', ResourceUsage = \<lparr>CPUUsageAvg = Map.empty, MEMUsageAvg = Map.empty\<rparr>\<rparr>],
              predicateFns = Map.empty, nodeOrderFns = Map.empty\<rparr>,
           \<lparr>Period = ''10m'', cache = OtherCache\<rparr>))"
  using unrecognized_cache_skips_copy [of "New [''thresholds'' \<mapsto> GMap []]" "GMap []"
      "\<lparr>Period = '''', cache = OtherCache\<rparr>" id 100
      "\<lparr>NodeList = [\<lparr>Name = ''n1'', ResourceUsage = \<lparr>CPUUsageAvg = Map.empty, MEMUsageAvg = Map.empty\<rparr>\<rparr>],
        predicateFns = Map.empty, nodeOrderFns = Map.empty\<rparr>"]
  by (simp add: New_def GetInt_def thresholdSection_def resolveThresholds_def thresholdEntries_def)




section \<open>Arithmetic on float64\<close>

lemma round64_0: "round64 0 = Fin 0"
  using round64_of_int [of 0] by simp

lemma round64_1: "round64 1 = Fin 1"
  using round64_of_int [of 1] by simp

lemma round64_100: "round64 100 = Fin 100"
  using round64_of_int [of 100] by simp

lemma round64_rounded:
  assumes "\<bar>rounded x\<bar> < 2 ^ emax"
  shows "round64 (rounded x) = Fin (rounded x)"
  unfolding round64_def rounded_idem using assms by (rule classify_Fin)

lemma fmul_one_float64_of_int: "fmul (Fin 1) (float64_of_int k) = float64_of_int k"
proof -
  have "\<bar>rounded (real_of_int (sint k))\<bar> < 2 ^ emax"
    using rounded_int64_bounds [of k] two63_lt_emax by linarith
  then show ?thesis by (simp only: float64_of_int_Fin fmul.simps mult_1 round64_rounded)
qed

lemma fmul_zero_float64_of_int: "fmul (Fin 0) (float64_of_int k) = Fin 0"
  by (simp add: float64_of_int_Fin round64_0)

lemma score_at_0: "fmul (fdiv (fsub (Fin 100) (Fin 0)) (Fin 100)) (float64_of_int k) = float64_of_int k"
  by (simp add: round64_100 round64_1 fmul_one_float64_of_int)

lemma score_at_100: "fmul (fdiv (fsub (Fin 100) (Fin 100)) (Fin 100)) (float64_of_int k) = Fin 0"
  by (simp add: round64_0 fmul_zero_float64_of_int)

lemma sint_mult_no_overflow:
  fixes a b :: "64 word"
  assumes "\<bar>sint a * sint b\<bar> \<le> 2 ^ 53"
  shows "sint (a * b) = sint a * sint b"
proof -
  have "- (2 ^ 63) \<le> sint a * sint b" "sint a * sint b < 2 ^ 63" using assms by simp_all
  then have "signed_take_bit 63 (sint a * sint b) = sint a * sint b"
    by (simp add: signed_take_bit_int_eq_self)
  then show ?thesis by (simp add: sint_word_ariths)
qed

lemma round64_not_NaN [simp]: "round64 x \<noteq> NaN"
  by (simp add: round64_def classify_def)

lemma fle_PInf: "a \<noteq> NaN \<Longrightarrow> fle a PInf"
  by (cases a) (simp_all add: fle_def feq_def)

lemma fle_NInf: "a \<noteq> NaN \<Longrightarrow> fle NInf a"
  by (cases a) (simp_all add: fle_def feq_def)

lemma fle_Fin: "fle (Fin x) (Fin y) \<longleftrightarrow> x \<le> y"
  by (auto simp: fle_def feq_def)

lemma fle_not_NaN: "fle a b \<Longrightarrow> a \<noteq> NaN \<and> b \<noteq> NaN"
  by (cases a; cases b) (simp_all add: fle_def feq_def)

lemma fge_iff_fle: "fge a b \<longleftrightarrow> fle b a"
  by (auto simp: fge_def fle_def fgt_def feq_def)

lemma fsub_antimono:
  assumes "flt u1 u2"
  shows "fle (fsub (Fin 100) u2) (fsub (Fin 100) u1)"
proof (cases u1)
  case NaN then show ?thesis using assms by simp
next
  case NInf
  then show ?thesis using assms by (cases u2) (simp_all add: fle_PInf)
next
  case PInf then show ?thesis using assms by (cases u2) simp_all
next
  case (Fin x)
  show ?thesis
  proof (cases u2)
    case (Fin y)
    then have "100 - y \<le> 100 - x" using assms \<open>u1 = Fin x\<close> by simp
    then show ?thesis using Fin \<open>u1 = Fin x\<close> by (simp add: round64_mono)
  qed (use assms Fin in \<open>simp_all add: fle_NInf\<close>)
qed

lemma fdiv_not_NaN: "b \<noteq> NaN \<Longrightarrow> fdiv b (Fin 100) \<noteq> NaN"
  by (cases b) simp_all

lemma fmul_pos_not_NaN: "b \<noteq> NaN \<Longrightarrow> 0 < w \<Longrightarrow> fmul b (Fin w) \<noteq> NaN"
  by (cases b) simp_all

lemma fdiv_mono:
  assumes "fle a b"
  shows "fle (fdiv a (Fin 100)) (fdiv b (Fin 100))"
proof (cases a)
  case NaN then show ?thesis using assms by (simp add: fle_def feq_def)
next
  case NInf
  then show ?thesis using fle_not_NaN [OF assms] by (simp add: fle_NInf fdiv_not_NaN)
next
  case PInf
  then show ?thesis using assms by (cases b) (simp_all add: fle_def feq_def)
next
  case (Fin x)
  show ?thesis
  proof (cases b)
    case (Fin y)
    then have "x / 100 \<le> y / 100" using assms \<open>a = Fin x\<close> by (simp add: fle_Fin)
    then show ?thesis using Fin \<open>a = Fin x\<close> by (simp add: round64_mono)
  next
    case PInf
    then show ?thesis using Fin by (simp add: fle_PInf)
  next
    case NInf
    then show ?thesis using assms Fin by (simp add: fle_def feq_def)
  next
    case NaN
    then show ?thesis using assms Fin by (simp add: fle_def feq_def)
  qed
qed

lemma fmul_mono_pos:
  assumes "fle a b" and "0 < w"
  shows "fle (fmul a (Fin w)) (fmul b (Fin w))"
proof (cases a)
  case NaN then show ?thesis using assms by (simp add: fle_def feq_def)
next
  case NInf
  then show ?thesis using fle_not_NaN [OF assms(1)] assms(2) by (simp add: fle_NInf fmul_pos_not_NaN)
next
  case PInf
  then show ?thesis using assms by (cases b) (simp_all add: fle_def feq_def)
next
  case (Fin x)
  show ?thesis
  proof (cases b)
    case (Fin y)
    then have "x * w \<le> y * w" using assms \<open>a = Fin x\<close> by (simp add: fle_Fin)
    then show ?thesis using Fin \<open>a = Fin x\<close> by (simp add: round64_mono)
  next
    case PInf
    then show ?thesis using Fin assms(2) by (simp add: fle_PInf)
  next
    case NInf
    then show ?thesis using assms Fin by (simp add: fle_def feq_def)
  next
    case NaN
    then show ?thesis using assms Fin by (simp add: fle_def feq_def)
  qed
qed

lemma float64_of_int_pos:
  assumes "0 < sint n"
  shows "\<exists>w. float64_of_int n = Fin w \<and> 0 < w"
proof -
  have "1 \<le> sint n" using assms by simp
  then have "real_of_int 1 \<le> real_of_int (sint n)" by (simp only: of_int_le_iff)
  from rounded_mono [OF this] have "1 \<le> rounded (real_of_int (sint n))"
    using rounded_of_int [of 1] by simp
  then show ?thesis by (simp add: float64_of_int_Fin)
qed

lemma rounded_abs: "\<bar>rounded y\<bar> = rounded \<bar>y\<bar>"
proof (cases "0 \<le> y")
  case True
  then show ?thesis using rounded_nonneg [of y] by simp
next
  case False
  then have "0 \<le> rounded (- y)" by (intro rounded_nonneg) simp
  then show ?thesis using False by (simp add: rounded_minus)
qed

lemma rounded_abs_le:
  assumes "\<bar>x\<bar> \<le> \<bar>rounded z\<bar>"
  shows "\<bar>rounded x\<bar> \<le> \<bar>rounded z\<bar>"
proof -
  have "\<bar>x\<bar> \<le> rounded \<bar>z\<bar>" using assms by (simp only: rounded_abs)
  from rounded_mono [OF this] have "rounded \<bar>x\<bar> \<le> rounded \<bar>z\<bar>" by (simp only: rounded_idem)
  then show ?thesis by (simp only: rounded_abs)
qed

lemma fexp_sandwich:
  assumes "0 < t" and "2 ^ (52 + t) \<le> \<bar>x\<bar> * 2 ^ emin" and "\<bar>x\<bar> * 2 ^ emin < 2 ^ (53 + t)"
  shows "fexp x = t"
proof -
  have pos: "0 < fexp x"
  proof (rule ccontr)
    assume "\<not> 0 < fexp x"
    then have "\<bar>x\<bar> * 2 ^ emin < 2 ^ 53" by (intro fexp_zero_bound) simp
    moreover have "(2::real) ^ 53 \<le> 2 ^ (52 + t)" by (rule power_increasing) (use assms(1) in auto)
    ultimately show False using assms(2) by linarith
  qed
  note b = fexp_pos_bounds [OF pos]
  have l1: "(2::real) ^ (52 + fexp x) < 2 ^ (53 + t)" using b(1) assms(3) by linarith
  have 1: "52 + fexp x < 53 + t"
    by (rule power_less_imp_less_exp [of "2::real"]) (simp, rule l1)
  have l2: "(2::real) ^ (52 + t) < 2 ^ (53 + fexp x)" using b(2) assms(2) by linarith
  have 2: "52 + t < 53 + fexp x"
    by (rule power_less_imp_less_exp [of "2::real"]) (simp, rule l2)
  from 1 2 show ?thesis by simp
qed

lemma rne_below_half:
  assumes "x < of_int k + 1 / 2"
  shows "rne x \<le> k"
proof -
  have "\<lfloor>x\<rfloor> \<le> k" using assms by (simp add: floor_le_iff)
  show ?thesis
  proof (cases "\<lfloor>x\<rfloor> = k")
    case True
    then have "x - of_int \<lfloor>x\<rfloor> < 1 / 2" using assms by simp
    then show ?thesis using True by (simp add: rne_def Let_def)
  next
    case False
    then have "\<lfloor>x\<rfloor> + 1 \<le> k" using \<open>\<lfloor>x\<rfloor> \<le> k\<close> by simp
    then show ?thesis using rne_le_floor_Suc [of x] by linarith
  qed
qed

lemma etop_eqs: "53 + etop = emin + emax" "52 + etop = emin + (emax - 1)" "0 < etop" "8 + emin \<le> etop"
  by (simp_all add: etop_def emin_def emax_def)

lemma hundred_small: "200 * (2::real) ^ emin < 2 ^ etop"
proof -
  have "200 * (2::real) ^ emin < 2 ^ 8 * 2 ^ emin" by simp
  also have "\<dots> = 2 ^ (8 + emin)" by (simp only: power_add)
  also have "\<dots> \<le> 2 ^ etop" by (rule power_increasing) (simp_all add: etop_eqs)
  finally show ?thesis .
qed

lemma pow_emax: "(2::real) ^ 53 * 2 ^ etop = 2 ^ emin * 2 ^ emax"
  by (simp only: power_add [symmetric] etop_eqs)

lemma pow_emax1: "(2::real) ^ 52 * 2 ^ etop = 2 ^ emin * 2 ^ (emax - 1)"
  by (simp only: power_add [symmetric] etop_eqs)

lemma rounded_no_overflow:
  assumes "\<bar>y\<bar> * 2 ^ emin \<le> (2 ^ 53 - 1) * 2 ^ etop + 100 * 2 ^ emin"
  shows "\<bar>rounded y\<bar> < 2 ^ emax"
proof -
  define z where "z = \<bar>y\<bar>"
  have z0: "0 \<le> z" and za: "\<bar>z\<bar> = z" by (simp_all add: z_def)
  have Z: "z * 2 ^ emin \<le> (2 ^ 53 - 1) * 2 ^ etop + 100 * 2 ^ emin" using assms by (simp add: z_def)
  have "rounded z < 2 ^ emax"
  proof (cases "z * 2 ^ emin < 2 ^ (52 + etop)")
    case True
    then have "z * 2 ^ emin < 2 ^ emin * 2 ^ (emax - 1)" by (simp only: power_add pow_emax1)
    then have "z \<le> 2 ^ (emax - 1)" by simp
    from rounded_mono [OF this] have "rounded z \<le> 2 ^ (emax - 1)" by (simp only: rounded_pow2)
    also have "(2::real) ^ (emax - 1) < 2 ^ emax"
      by (rule power_strict_increasing) (simp_all add: emax_def)
    finally show ?thesis .
  next
    case False
    then have lo: "2 ^ (52 + etop) \<le> \<bar>z\<bar> * 2 ^ emin" by (simp add: za)
    have "100 * (2::real) ^ emin \<le> 200 * 2 ^ emin" by simp
    then have "100 * (2::real) ^ emin < 2 ^ etop" using hundred_small by (rule le_less_trans)
    then have "z * 2 ^ emin < (2 ^ 53 - 1) * 2 ^ etop + 2 ^ etop" using Z by linarith
    also have "\<dots> = (2::real) ^ (53 + etop)" by (simp add: power_add algebra_simps)
    finally have hi: "\<bar>z\<bar> * 2 ^ emin < 2 ^ (53 + etop)" by (simp add: za)
    have fe: "fexp z = etop" using etop_eqs(3) lo hi by (rule fexp_sandwich)
    have "z * 2 ^ emin / 2 ^ etop \<le> ((2 ^ 53 - 1) * 2 ^ etop + 100 * 2 ^ emin) / 2 ^ etop"
      using Z by (simp add: divide_right_mono)
    also have "\<dots> = (2 ^ 53 - 1) + 100 * 2 ^ emin / 2 ^ etop" by (simp add: add_divide_distrib)
    also have "\<dots> < (2 ^ 53 - 1) + 1 / 2"
      using hundred_small by (simp add: divide_less_eq)
    finally have "z * 2 ^ emin / 2 ^ etop < real_of_int (2 ^ 53 - 1) + 1 / 2" by simp
    from rne_below_half [OF this] have m: "mant z \<le> 2 ^ 53 - 1" by (simp add: mant_def fe)
    have "real_of_int (mant z) \<le> real_of_int (2 ^ 53 - 1)" using m by (simp only: of_int_le_iff)
    then have "real_of_int (mant z) * 2 ^ etop \<le> real_of_int (2 ^ 53 - 1) * 2 ^ etop"
      by (intro mult_right_mono) simp_all
    also have "\<dots> < 2 ^ 53 * 2 ^ etop" by simp
    also have "\<dots> = 2 ^ emin * 2 ^ emax" by (rule pow_emax)
    finally have "real_of_int (mant z) * 2 ^ etop / 2 ^ emin < 2 ^ emax"
      by (simp add: divide_less_eq mult.commute)
    then show ?thesis by (simp add: rounded_def fe)
  qed
  then show ?thesis by (simp add: rounded_abs z_def)
qed

lemma float64_bound:
  assumes "round64 x = Fin x"
  shows "\<bar>x\<bar> * 2 ^ emin \<le> (2 ^ 53 - 1) * 2 ^ etop"
proof (rule ccontr)
  assume neg: "\<not> \<bar>x\<bar> * 2 ^ emin \<le> (2 ^ 53 - 1) * 2 ^ etop"
  from assms have rx: "rounded x = x" and lt: "\<bar>x\<bar> < 2 ^ emax"
    by (auto simp: round64_def classify_def split: if_splits)
  define z where "z = \<bar>x\<bar>"
  have za: "\<bar>z\<bar> = z" by (simp add: z_def)
  have rz: "rounded z = z" using rounded_abs [of x] by (simp add: rx z_def)
  have "z * 2 ^ emin < 2 ^ emin * 2 ^ emax" using lt by (simp add: z_def)
  then have hi: "\<bar>z\<bar> * 2 ^ emin < 2 ^ (53 + etop)" by (simp only: za power_add pow_emax)
  have gt: "(2 ^ 53 - 1) * 2 ^ etop < z * 2 ^ emin" using neg by (simp add: z_def)
  have "(2::real) ^ 52 * 2 ^ etop \<le> (2 ^ 53 - 1) * 2 ^ etop" by (intro mult_right_mono) simp_all
  then have "(2::real) ^ 52 * 2 ^ etop \<le> z * 2 ^ emin" using gt by linarith
  then have lo: "2 ^ (52 + etop) \<le> \<bar>z\<bar> * 2 ^ emin" by (simp only: za power_add)
  have fe: "fexp z = etop" using etop_eqs(3) lo hi by (rule fexp_sandwich)
  have "z = real_of_int (mant z) * 2 ^ etop / 2 ^ emin" using rz by (simp add: rounded_def fe)
  then have Zm: "z * 2 ^ emin = real_of_int (mant z) * 2 ^ etop" by (simp add: field_simps)
  have "real_of_int (2 ^ 53 - 1) * 2 ^ etop < real_of_int (mant z) * 2 ^ etop" using gt Zm by simp
  then have 1: "2 ^ 53 - 1 < mant z" by (simp only: mult_less_cancel_right_pos zero_less_power zero_less_numeral of_int_less_iff)
  have "real_of_int (mant z) * 2 ^ etop < real_of_int (2 ^ 53) * 2 ^ etop" using hi Zm by (simp add: za power_add)
  then have 2: "mant z < 2 ^ 53" by (simp only: mult_less_cancel_right_pos zero_less_power zero_less_numeral of_int_less_iff)
  from 1 2 show False by simp
qed

lemma quotient_finite:
  assumes "round64 x = Fin x"
  shows "\<exists>q. fdiv (fsub (Fin 100) (Fin x)) (Fin 100) = Fin q"
proof -
  have "\<bar>100 - x\<bar> * 2 ^ emin \<le> (\<bar>x\<bar> + 100) * 2 ^ emin"
    by (intro mult_right_mono) simp_all
  also have "\<dots> = \<bar>x\<bar> * 2 ^ emin + 100 * 2 ^ emin" by (simp add: algebra_simps)
  also have "\<dots> \<le> (2 ^ 53 - 1) * 2 ^ etop + 100 * 2 ^ emin"
    using float64_bound [OF assms] by simp
  finally have r: "\<bar>rounded (100 - x)\<bar> < 2 ^ emax" by (rule rounded_no_overflow)
  have "\<bar>rounded (100 - x) / 100\<bar> \<le> \<bar>rounded (100 - x)\<bar>" by simp
  from rounded_abs_le [OF this] have "\<bar>rounded (rounded (100 - x) / 100)\<bar> < 2 ^ emax"
    using r by linarith
  then show ?thesis using r by (simp add: round64_def classify_Fin)
qed

lemma fmul_zero: "fmul (Fin q) (Fin 0) = Fin 0"
  by (simp add: round64_0)

section \<open>Scoring\<close>

lemma nodeOrderFn_entry:
  assumes "SamplePeriods up \<noteq> ''''" and "CPUUsageAvg (ResourceUsage node) (SamplePeriods up) = Some u"
  shows "nodeOrderFn MaxNodeScore up task node =
           (fmul (fdiv (fsub (Fin 100) u) (Fin 100)) (float64_of_int (MaxNodeScore * weight up)), None)"
  using assms by (simp add: nodeOrderFn_def)

text \<open>
  C3, as stated, fails: the product of the maximum score and the weight is taken in
  int64 and wraps around. With maximum score 100 and weight \<open>2 ^ 62\<close> the product is 0,
  and a node with utilization 0 scores 0, not \<open>100 * 2 ^ 62\<close>.
\<close>

theorem score_overflow_counterexample:
  "weight (New [''usage.weight'' \<mapsto> GInt 4611686018427387904]) = 4611686018427387904
   \<and> nodeOrderFn 100 (New [''usage.weight'' \<mapsto> GInt 4611686018427387904])
       \<lparr>Namespace = ''default'', TaskName = ''t''\<rparr>
       \<lparr>Name = ''n1'', ResourceUsage = \<lparr>CPUUsageAvg = [''10m'' \<mapsto> Fin 0], MEMUsageAvg = Map.empty\<rparr>\<rparr> =
       (Fin 0, None)
   \<and> Fin 0 \<noteq> Fin ((100 - 0) / 100 * 100 * 4611686018427387904)"
proof -
  let ?up = "New [''usage.weight'' \<mapsto> GInt 4611686018427387904]"
  have w: "weight ?up = 4611686018427387904" by (simp add: New_def GetInt_def)
  have p: "SamplePeriods ?up = ''10m''" by (simp add: New_def GetInt_def)
  have k: "(100 :: 64 word) * weight ?up = 0" unfolding w by simp
  have "nodeOrderFn 100 ?up \<lparr>Namespace = ''default'', TaskName = ''t''\<rparr>
       \<lparr>Name = ''n1'', ResourceUsage = \<lparr>CPUUsageAvg = [''10m'' \<mapsto> Fin 0], MEMUsageAvg = Map.empty\<rparr>\<rparr> =
       (fmul (fdiv (fsub (Fin 100) (Fin 0)) (Fin 100)) (float64_of_int (100 * weight ?up)), None)"
    by (rule nodeOrderFn_entry) (simp_all add: p)
  then have "nodeOrderFn 100 ?up \<lparr>Namespace = ''default'', TaskName = ''t''\<rparr>
       \<lparr>Name = ''n1'', ResourceUsage = \<lparr>CPUUsageAvg = [''10m'' \<mapsto> Fin 0], MEMUsageAvg = Map.empty\<rparr>\<rparr> =
       (Fin 0, None)"
    by (simp only: score_at_0) (simp only: k float64_of_int_0)
  then show ?thesis using w by simp
qed

text \<open>
  C3, amended. With a non-empty sample period and a CPU entry \<open>u\<close> for it, the scoring
  function returns no error and the score is the float64 product of the float64 quotient
  \<open>(100 - u) / 100\<close> and the float64 conversion of the int64 product of the maximum score
  and the weight. At \<open>u = 0\<close> the score is that conversion, which is the product itself
  when its magnitude is at most \<open>2 ^ 53\<close>; at \<open>u = 100\<close> the score is 0.
\<close>

theorem score_formula:
  assumes "SamplePeriods up \<noteq> ''''"
    and "CPUUsageAvg (ResourceUsage node) (SamplePeriods up) = Some u"
  shows "nodeOrderFn MaxNodeScore up task node =
           (fmul (fdiv (fsub (Fin 100) u) (Fin 100)) (float64_of_int (MaxNodeScore * weight up)), None)
       \<and> (u = Fin 0 \<longrightarrow>
            nodeOrderFn MaxNodeScore up task node = (float64_of_int (MaxNodeScore * weight up), None))
       \<and> (u = Fin 0 \<and> \<bar>sint MaxNodeScore * sint (weight up)\<bar> \<le> 2 ^ 53 \<longrightarrow>
            nodeOrderFn MaxNodeScore up task node =
              (Fin (real_of_int (sint MaxNodeScore * sint (weight up))), None))
       \<and> (u = Fin 100 \<longrightarrow> nodeOrderFn MaxNodeScore up task node = (Fin 0, None))"
proof (intro conjI impI)
  show f: "nodeOrderFn MaxNodeScore up task node =
           (fmul (fdiv (fsub (Fin 100) u) (Fin 100)) (float64_of_int (MaxNodeScore * weight up)), None)"
    using assms by (rule nodeOrderFn_entry)
  show "nodeOrderFn MaxNodeScore up task node = (float64_of_int (MaxNodeScore * weight up), None)"
    if "u = Fin 0"
    unfolding f that score_at_0 ..
  show "nodeOrderFn MaxNodeScore up task node =
              (Fin (real_of_int (sint MaxNodeScore * sint (weight up))), None)"
    if h: "u = Fin 0 \<and> \<bar>sint MaxNodeScore * sint (weight up)\<bar> \<le> 2 ^ 53"
  proof -
    from h have s: "sint (MaxNodeScore * weight up) = sint MaxNodeScore * sint (weight up)"
      by (intro sint_mult_no_overflow) simp
    have "float64_of_int (MaxNodeScore * weight up) =
            Fin (real_of_int (sint (MaxNodeScore * weight up)))"
      using h by (intro float64_of_int_small) (simp only: s)
    moreover have "nodeOrderFn MaxNodeScore up task node =
        (float64_of_int (MaxNodeScore * weight up), None)"
      using h unfolding f by (simp only: score_at_0)
    ultimately show ?thesis by (simp only: s)
  qed
  show "nodeOrderFn MaxNodeScore up task node = (Fin 0, None)" if "u = Fin 100"
    unfolding f that score_at_100 ..
qed

theorem score_formula_witness:
  "nodeOrderFn 100 (New [''usage.weight'' \<mapsto> GInt 10]) \<lparr>Namespace = ''default'', TaskName = ''t''\<rparr>
     \<lparr>Name = ''n1'', ResourceUsage = \<lparr>CPUUsageAvg = [''10m'' \<mapsto> Fin 0], MEMUsageAvg = Map.empty\<rparr>\<rparr> =
     (Fin 1000, None)
   \<and> nodeOrderFn 100 (New [''usage.weight'' \<mapsto> GInt 10]) \<lparr>Namespace = ''default'', TaskName = ''t''\<rparr>
     \<lparr>Name = ''n2'', ResourceUsage = \<lparr>CPUUsageAvg = [''10m'' \<mapsto> Fin 100], MEMUsageAvg = Map.empty\<rparr>\<rparr> =
     (Fin 0, None)"
proof -
  have w: "weight (New [''usage.weight'' \<mapsto> GInt 10]) = 10" by (simp add: New_def GetInt_def)
  have p: "SamplePeriods (New [''usage.weight'' \<mapsto> GInt 10]) = ''10m''" by (simp add: New_def GetInt_def)
  have h: "Fin 0 = Fin 0 \<and> \<bar>sint (100 :: 64 word) * sint (weight (New [''usage.weight'' \<mapsto> GInt 10]))\<bar> \<le> 2 ^ 53"
    by (simp add: w)
  show ?thesis
    using score_formula [of "New [''usage.weight'' \<mapsto> GInt 10]"
        "\<lparr>Name = ''n1'', ResourceUsage = \<lparr>CPUUsageAvg = [''10m'' \<mapsto> Fin 0], MEMUsageAvg = Map.empty\<rparr>\<rparr>"
        "Fin 0" 100 "\<lparr>Namespace = ''default'', TaskName = ''t''\<rparr>",
        THEN conjunct2, THEN conjunct2, THEN conjunct1, THEN mp, OF _ _ h]
      score_formula [of "New [''usage.weight'' \<mapsto> GInt 10]"
        "\<lparr>Name = ''n2'', ResourceUsage = \<lparr>CPUUsageAvg = [''10m'' \<mapsto> Fin 100], MEMUsageAvg = Map.empty\<rparr>\<rparr>"
        "Fin 100" 100 "\<lparr>Namespace = ''default'', TaskName = ''t''\<rparr>",
        THEN conjunct2, THEN conjunct2, THEN conjunct2, THEN mp, OF _ _ refl]
    by (simp add: w p)
qed

text \<open>
  C7, as stated, fails: nothing keeps the weight from being negative. With maximum score
  100 and weight -1, utilization 0 scores -100 and utilization 100 scores 0.
\<close>

theorem score_increasing_counterexample:
  "flt (Fin 0) (Fin 100)
   \<and> nodeOrderFn 100 (New [''usage.weight'' \<mapsto> GInt (- 1)]) \<lparr>Namespace = ''default'', TaskName = ''t''\<rparr>
       \<lparr>Name = ''n1'', ResourceUsage = \<lparr>CPUUsageAvg = [''10m'' \<mapsto> Fin 0], MEMUsageAvg = Map.empty\<rparr>\<rparr> =
       (Fin (- 100), None)
   \<and> nodeOrderFn 100 (New [''usage.weight'' \<mapsto> GInt (- 1)]) \<lparr>Namespace = ''default'', TaskName = ''t''\<rparr>
       \<lparr>Name = ''n2'', ResourceUsage = \<lparr>CPUUsageAvg = [''10m'' \<mapsto> Fin 100], MEMUsageAvg = Map.empty\<rparr>\<rparr> =
       (Fin 0, None)
   \<and> \<not> fge (Fin (- 100)) (Fin 0)"
proof -
  let ?up = "New [''usage.weight'' \<mapsto> GInt (- 1)]"
  have w: "weight ?up = - 1" by (simp add: New_def GetInt_def)
  have p: "SamplePeriods ?up = ''10m''" by (simp add: New_def GetInt_def)
  have k: "float64_of_int (100 * weight ?up) = Fin (- 100)"
    unfolding w using float64_of_int_small [of "100 * (- 1)"] by simp
  have "nodeOrderFn 100 ?up \<lparr>Namespace = ''default'', TaskName = ''t''\<rparr>
       \<lparr>Name = ''n1'', ResourceUsage = \<lparr>CPUUsageAvg = [''10m'' \<mapsto> Fin 0], MEMUsageAvg = Map.empty\<rparr>\<rparr> =
       (fmul (fdiv (fsub (Fin 100) (Fin 0)) (Fin 100)) (float64_of_int (100 * weight ?up)), None)"
    by (rule nodeOrderFn_entry) (simp_all add: p)
  then have 1: "nodeOrderFn 100 ?up \<lparr>Namespace = ''default'', TaskName = ''t''\<rparr>
       \<lparr>Name = ''n1'', ResourceUsage = \<lparr>CPUUsageAvg = [''10m'' \<mapsto> Fin 0], MEMUsageAvg = Map.empty\<rparr>\<rparr> =
       (Fin (- 100), None)"
    by (simp only: score_at_0) (simp only: k)
  have "nodeOrderFn 100 ?up \<lparr>Namespace = ''default'', TaskName = ''t''\<rparr>
       \<lparr>Name = ''n2'', ResourceUsage = \<lparr>CPUUsageAvg = [''10m'' \<mapsto> Fin 100], MEMUsageAvg = Map.empty\<rparr>\<rparr> =
       (fmul (fdiv (fsub (Fin 100) (Fin 100)) (Fin 100)) (float64_of_int (100 * weight ?up)), None)"
    by (rule nodeOrderFn_entry) (simp_all add: p)
  then have 2: "nodeOrderFn 100 ?up \<lparr>Namespace = ''default'', TaskName = ''t''\<rparr>
       \<lparr>Name = ''n2'', ResourceUsage = \<lparr>CPUUsageAvg = [''10m'' \<mapsto> Fin 100], MEMUsageAvg = Map.empty\<rparr>\<rparr> =
       (Fin 0, None)"
    by (simp only: score_at_100)
  show ?thesis using 1 2 by (simp add: fge_def fgt_def feq_def)
qed

text \<open>
  C7, amended. For a fixed sample period and a fixed weight whose int64 product with the
  maximum score is not negative, the score does not increase with the CPU utilization:
  for two nodes with entries \<open>u1 < u2\<close> for the period, the score of the first is at
  least the score of the second, when the product is positive or both utilizations are
  finite float64 numbers.
\<close>

theorem score_monotone:
  assumes "SamplePeriods up \<noteq> ''''"
    and "CPUUsageAvg (ResourceUsage node1) (SamplePeriods up) = Some u1"
    and "CPUUsageAvg (ResourceUsage node2) (SamplePeriods up) = Some u2"
    and "flt u1 u2"
    and "0 \<le> sint (MaxNodeScore * weight up)"
    and "0 < sint (MaxNodeScore * weight up)
         \<or> (is_finite u1 \<and> is_float64 u1 \<and> is_finite u2 \<and> is_float64 u2)"
  shows "fge (fst (nodeOrderFn MaxNodeScore up task node1)) (fst (nodeOrderFn MaxNodeScore up task node2))"
proof -
  let ?k = "MaxNodeScore * weight up"
  have s1: "fst (nodeOrderFn MaxNodeScore up task node1) =
              fmul (fdiv (fsub (Fin 100) u1) (Fin 100)) (float64_of_int ?k)"
    using nodeOrderFn_entry [OF assms(1,2)] by simp
  have s2: "fst (nodeOrderFn MaxNodeScore up task node2) =
              fmul (fdiv (fsub (Fin 100) u2) (Fin 100)) (float64_of_int ?k)"
    using nodeOrderFn_entry [OF assms(1,3)] by simp
  have q: "fle (fdiv (fsub (Fin 100) u2) (Fin 100)) (fdiv (fsub (Fin 100) u1) (Fin 100))"
    using assms(4) by (intro fdiv_mono fsub_antimono)
  have "fle (fmul (fdiv (fsub (Fin 100) u2) (Fin 100)) (float64_of_int ?k))
            (fmul (fdiv (fsub (Fin 100) u1) (Fin 100)) (float64_of_int ?k))"
  proof (cases "0 < sint ?k")
    case True
    from float64_of_int_pos [OF True] obtain w where w: "float64_of_int ?k = Fin w" "0 < w" by blast
    show ?thesis unfolding w(1) using q w(2) by (rule fmul_mono_pos)
  next
    case False
    then have z: "sint ?k = 0" using assms(5) by simp
    have k0: "float64_of_int ?k = Fin 0"
      unfolding float64_of_int_def z by (simp add: round64_0)
    from False assms(6) have f: "is_finite u1" "is_float64 u1" "is_finite u2" "is_float64 u2"
      by simp_all
    from f(1,2) obtain x1 where x1: "u1 = Fin x1" "round64 x1 = Fin x1"
      by (cases u1) (simp_all add: is_finite_def is_float64_def)
    from f(3,4) obtain x2 where x2: "u2 = Fin x2" "round64 x2 = Fin x2"
      by (cases u2) (simp_all add: is_finite_def is_float64_def)
    from quotient_finite [OF x1(2)] obtain q1 where q1: "fdiv (fsub (Fin 100) u1) (Fin 100) = Fin q1"
      unfolding x1(1) by blast
    from quotient_finite [OF x2(2)] obtain q2 where q2: "fdiv (fsub (Fin 100) u2) (Fin 100) = Fin q2"
      unfolding x2(1) by blast
    show ?thesis unfolding q1 q2 k0 fmul_zero by (simp add: fle_Fin)
  qed
  then show ?thesis unfolding s1 s2 by (simp only: fge_iff_fle)
qed

theorem score_monotone_witness:
  "fge (fst (nodeOrderFn 100 (New [''usage.weight'' \<mapsto> GInt 10]) \<lparr>Namespace = ''default'', TaskName = ''t''\<rparr>
          \<lparr>Name = ''a'', ResourceUsage = \<lparr>CPUUsageAvg = [''10m'' \<mapsto> Fin 50], MEMUsageAvg = [''10m'' \<mapsto> Fin 40]\<rparr>\<rparr>))
       (fst (nodeOrderFn 100 (New [''usage.weight'' \<mapsto> GInt 10]) \<lparr>Namespace = ''default'', TaskName = ''t''\<rparr>
          \<lparr>Name = ''b'', ResourceUsage = \<lparr>CPUUsageAvg = [''10m'' \<mapsto> Fin 85], MEMUsageAvg = [''10m'' \<mapsto> Fin 40]\<rparr>\<rparr>))
   \<and> fge (fst (nodeOrderFn 100 (New [''usage.weight'' \<mapsto> GInt 0]) \<lparr>Namespace = ''default'', TaskName = ''t''\<rparr>
          \<lparr>Name = ''a'', ResourceUsage = \<lparr>CPUUsageAvg = [''10m'' \<mapsto> Fin 50], MEMUsageAvg = [''10m'' \<mapsto> Fin 40]\<rparr>\<rparr>))
       (fst (nodeOrderFn 100 (New [''usage.weight'' \<mapsto> GInt 0]) \<lparr>Namespace = ''default'', TaskName = ''t''\<rparr>
          \<lparr>Name = ''b'', ResourceUsage = \<lparr>CPUUsageAvg = [''10m'' \<mapsto> Fin 85], MEMUsageAvg = [''10m'' \<mapsto> Fin 40]\<rparr>\<rparr>))"
proof -
  let ?a = "\<lparr>Name = ''a'', ResourceUsage = \<lparr>CPUUsageAvg = [''10m'' \<mapsto> Fin 50], MEMUsageAvg = [''10m'' \<mapsto> Fin 40]\<rparr>\<rparr>"
  let ?b = "\<lparr>Name = ''b'', ResourceUsage = \<lparr>CPUUsageAvg = [''10m'' \<mapsto> Fin 85], MEMUsageAvg = [''10m'' \<mapsto> Fin 40]\<rparr>\<rparr>"
  let ?t = "\<lparr>Namespace = ''default'', TaskName = ''t''\<rparr>"
  have w10: "weight (New [''usage.weight'' \<mapsto> GInt 10]) = 10"
    and p10: "SamplePeriods (New [''usage.weight'' \<mapsto> GInt 10]) = ''10m''"
    and w0: "weight (New [''usage.weight'' \<mapsto> GInt 0]) = 0"
    and p0: "SamplePeriods (New [''usage.weight'' \<mapsto> GInt 0]) = ''10m''"
    by (simp_all add: New_def GetInt_def)
  have f50: "round64 50 = Fin 50" using round64_of_int [of 50] by simp
  have f85: "round64 85 = Fin 85" using round64_of_int [of 85] by simp
  have 1: "fge (fst (nodeOrderFn 100 (New [''usage.weight'' \<mapsto> GInt 10]) ?t ?a))
               (fst (nodeOrderFn 100 (New [''usage.weight'' \<mapsto> GInt 10]) ?t ?b))"
    by (rule score_monotone [where ?u1.0 = "Fin 50" and ?u2.0 = "Fin 85"]) (simp_all add: w10 p10)
  have 2: "fge (fst (nodeOrderFn 100 (New [''usage.weight'' \<mapsto> GInt 0]) ?t ?a))
               (fst (nodeOrderFn 100 (New [''usage.weight'' \<mapsto> GInt 0]) ?t ?b))"
    by (rule score_monotone [where ?u1.0 = "Fin 50" and ?u2.0 = "Fin 85"])
       (simp_all add: w0 p0 is_finite_def is_float64_def f50 f85)
  from 1 2 show ?thesis by (rule conjI)
qed

end
